theory Spec2Isabelle
  imports Main "HOL-Library.Sublist"
begin

section \<open>Icon Normalizer: the plugin's orchestration code (code.js)\<close>

text \<open>
  The plugin runs inside a host vector editor. Everything the host does (exporting,
  importing markup, outlining strokes, flattening, grouping variants) is opaque to the
  plugin and may throw; the plugin's own code is the selection resolver, the exporter
  loop, the outline-and-flatten pass, the variant assembler and the result reporter.
  The host's primitives are therefore parameters of the model (the record \<open>host\<close>
  below), and the plugin's functions are translated one by one.

  The repository holds a second copy of the file. It differs from \<open>code.js\<close> in the
  geometry pass (an earlier \<open>outlineAllStrokes\<close>, which outlines strokes and keeps
  a stroke whose outlining failed) and in the text of one notification. The model
  follows \<open>code.js\<close>, whose three-phase pass is the one the specification
  describes.
\<close>

subsection \<open>Strings: numbers in template literals, and the size-suffix pattern\<close>

text \<open>
  A template literal renders a non-negative integer in decimal, without padding.
\<close>

definition digitChar :: "nat \<Rightarrow> char" where
  "digitChar d = ''0123456789'' ! d"

function decimal :: "nat \<Rightarrow> string" where
  "decimal n = (if n < 10 then [digitChar n] else decimal (n div 10) @ [digitChar (n mod 10)])"
  by pat_completeness auto
termination
  by (relation "measure (\<lambda>n. n)") auto

declare decimal.simps [simp del]

text \<open>
  \<^verbatim>\<open>const sizes = [16, 24, 32];\<close>
\<close>

definition sizes :: "nat list" where
  "sizes = [16, 24, 32]"

text \<open>
  \<^verbatim>\<open>result.name.replace(/[_\-]?(16|24|32)(dp)?$/i, '')\<close>

  The pattern has no \<open>g\<close> and no \<open>m\<close> flag: \<open>replace\<close> rewrites the first
  match only, and \<open>$\<close> holds at the end of the input only. A match is tried at every
  start position from the left; at one position the pattern reads an optional
  separator, one of the three numerals, an optional \<open>dp\<close> in either case, and must
  then stand at the end of the name. Names are strings of 8-bit characters here; the
  pattern compares with ASCII characters only, and no character outside ASCII folds
  to one of them under the \<open>i\<close> flag.
\<close>

definition isSeparator :: "char \<Rightarrow> bool" where
  "isSeparator c = (c = CHR ''_'' \<or> c = CHR ''-'')"

text \<open>\<^verbatim>\<open>(16|24|32)\<close>: the rest of the input after the numeral, if one is read.\<close>

fun matchNumeral :: "string \<Rightarrow> string option" where
  "matchNumeral (a # b # r) =
     (if [a, b] = ''16'' \<or> [a, b] = ''24'' \<or> [a, b] = ''32'' then Some r else None)"
| "matchNumeral _ = None"

text \<open>\<^verbatim>\<open>(dp)?$\<close> under the \<open>i\<close> flag: nothing is left, or exactly the two unit letters.\<close>

fun matchUnitEnd :: "string \<Rightarrow> bool" where
  "matchUnitEnd [] = True"
| "matchUnitEnd [a, b] = ((a = CHR ''d'' \<or> a = CHR ''D'') \<and> (b = CHR ''p'' \<or> b = CHR ''P''))"
| "matchUnitEnd _ = False"

definition matchFromNumeral :: "string \<Rightarrow> bool" where
  "matchFromNumeral s = (case matchNumeral s of None \<Rightarrow> False | Some r \<Rightarrow> matchUnitEnd r)"

text \<open>
  The whole pattern at one start position: the greedy \<open>[_\-]?\<close> first takes a
  separator when there is one, and gives it back when the rest does not match.
\<close>

fun matchHere :: "string \<Rightarrow> bool" where
  "matchHere [] = False"
| "matchHere (c # r) =
     ((isSeparator c \<and> matchFromNumeral r) \<or> matchFromNumeral (c # r))"

text \<open>
  \<open>replace\<close> with the empty replacement: the characters before the first start
  position that matches are kept, the match (which runs to the end) is dropped.
\<close>

fun stripSizeSuffix :: "string \<Rightarrow> string" where
  "stripSizeSuffix [] = []"
| "stripSizeSuffix (c # r) = (if matchHere (c # r) then [] else c # stripSizeSuffix r)"

text \<open>\<^verbatim>\<open>comp.name = `${baseName}_${size}`\<close>\<close>

definition sizeNodeName :: "string \<Rightarrow> nat \<Rightarrow> string" where
  "sizeNodeName baseName sz = baseName @ ''_'' @ decimal sz"

subsection \<open>The host's scene graph, as far as the plugin reads and writes it\<close>

text \<open>
  A node is known to the plugin through a handle (\<open>nid\<close>) and the properties below.
  \<open>hasExportAsync\<close> is \<^verbatim>\<open>'exportAsync' in node\<close>; \<open>strokes = None\<close> is a node
  without the property (\<^verbatim>\<open>'strokes' in node\<close> false, or a falsy value);
  \<open>children = None\<close> is a node without a child sequence (\<^verbatim>\<open>'children' in node\<close>
  false). Paints are opaque. Fills, auto-layout settings, positions (floating point)
  and the font size of the placeholder are written by the plugin and never read by
  it; they are left out, as is the text sent to the console.
\<close>

datatype ntype = COMPONENT | INSTANCE | FRAME | GROUP | VECTOR | BOOLEAN_OPERATION | TEXT
  | COMPONENT_SET

type_synonym paint = string

record props =
  nid :: nat
  ntype :: ntype
  name :: string
  visible :: bool
  hasExportAsync :: bool
  strokes :: "paint list option"
  strokeWeight :: nat
  width :: nat
  height :: nat
  clipsContent :: bool
  characters :: string

datatype node = Node (props: props) (children: "node list option")

text \<open>An exception thrown by a host call; the plugin never inspects it.\<close>

datatype exn = Thrown

text \<open>
  What a host primitive sees and rewrites while the geometry pass runs on a size-node:
  the size-node's current children (with their subtrees) and the handles whose
  \<open>removed\<close> flag reads true.
\<close>

record scene =
  kids :: "node list"
  removedIds :: "nat list"

text \<open>
  The host. Each field stands for one primitive the plugin calls:
  \<^item> \<open>exportAsync node\<close>: the markup, or a throw;
  \<^item> \<open>createNodeFromSvg markup\<close>: the temporary frame holding the imported nodes, or a
    throw (the markup is \<open>None\<close> when the result has no entry for the size);
  \<^item> \<open>outlineStroke scene handle\<close> and \<open>flatten scene handles parent\<close>: the returned
    handle (or null) or a throw, and the scene as the call leaves it; a call that
    throws may still have changed the scene;
  \<^item> \<open>strokesWriteThrows handle\<close>, \<open>strokeWeightWriteThrows handle\<close>: whether
    assigning the property on that node throws (the plugin wraps both writes in
    \<open>try\<close>);
  \<^item> \<open>loadFontAsync\<close>: completes or throws;
  \<^item> \<open>combineAsVariantsThrows components\<close>: whether grouping these components throws;
  \<^item> \<open>defaults kind\<close>: the properties of a node of that kind as the host creates it.
  A host call is taken to return or throw; the host is a function of what it is
  given (two calls on equal arguments behave alike).
\<close>

record host =
  exportAsync :: "node \<Rightarrow> exn + string"
  createNodeFromSvg :: "string option \<Rightarrow> exn + node"
  outlineStroke :: "scene \<Rightarrow> nat \<Rightarrow> (exn + nat option) \<times> scene"
  flatten :: "scene \<Rightarrow> nat list \<Rightarrow> nat \<Rightarrow> (exn + nat option) \<times> scene"
  strokesWriteThrows :: "nat \<Rightarrow> bool"
  strokeWeightWriteThrows :: "nat \<Rightarrow> bool"
  loadFontAsync :: "exn + unit"
  combineAsVariantsThrows :: "node list \<Rightarrow> bool"
  defaults :: "ntype \<Rightarrow> props"

text \<open>What the user and the UI iframe observe, in the order it happens.\<close>

datatype effect =
    Notify string bool  \<comment> \<open>\<open>figma.notify(message, {error})\<close>\<close>
  | ClosePlugin
  | PostMessage "(string \<times> string) list"  \<comment> \<open>\<open>normalize-icons\<close> with its \<open>{name, svg}\<close> entries\<close>
  | SetSelection "nat list"
  | ScrollAndZoomIntoView "nat list"

subsection \<open>Selection reading\<close>

text \<open>
  \<^verbatim>\<open>function isExportableNode(node) { return 'exportAsync' in node && node.visible; }\<close>
\<close>

definition isExportableNode :: "node \<Rightarrow> bool" where
  "isExportableNode node = (hasExportAsync (props node) \<and> visible (props node))"

text \<open>
  The branch of \<open>getIconNodes\<close> for a single selected node with at least one child:
  its two \<open>return\<close>s are \<open>Some\<close>, falling out of the branch is \<open>None\<close>.
\<close>

fun singleContainer :: "node list \<Rightarrow> node list option" where
  "singleContainer [Node p (Some (c # cs))] =
     (if ntype p = COMPONENT \<or> ntype p = INSTANCE then Some [Node p (Some (c # cs))]
      else (let children = filter isExportableNode (c # cs)
            in if length children > 0 then Some children else None))"
| "singleContainer _ = None"

definition getIconNodes :: "node list \<Rightarrow> node list \<times> effect list" where
  "getIconNodes sel =
     (if length sel = 0 then
        ([], [Notify ''Please select one or more icons, or a frame containing icons.'' True,
              ClosePlugin])
      else (case singleContainer sel of
              Some nodes \<Rightarrow> (nodes, [])
            | None \<Rightarrow> (filter isExportableNode sel, [])))"

subsection \<open>Export\<close>

text \<open>
  \<open>trim\<close> on the characters a byte string can hold: space, tab, line feed, vertical
  tab, form feed, carriage return.
\<close>

definition isWhiteSpace :: "char \<Rightarrow> bool" where
  "isWhiteSpace c = (c \<in> set [CHR 0x20, CHR 0x09, CHR 0x0A, CHR 0x0B, CHR 0x0C, CHR 0x0D])"

definition trim :: "string \<Rightarrow> string" where
  "trim s = rev (dropWhile isWhiteSpace (rev (dropWhile isWhiteSpace s)))"

fun exportIcons :: "host \<Rightarrow> node list \<Rightarrow> (string \<times> string) list" where
  "exportIcons h [] = []"
| "exportIcons h (node # nodes) =
     (case exportAsync h node of
        Inl e \<Rightarrow> exportIcons h nodes
      | Inr svg \<Rightarrow>
          (let nm = trim (name (props node))
           in (if nm = [] then ''icon'' else nm, svg) # exportIcons h nodes))"

subsection \<open>Main flow\<close>

definition main :: "host \<Rightarrow> node list \<Rightarrow> effect list" where
  "main h sel =
     (let (nodes, e1) = getIconNodes sel
      in if length nodes = 0 then e1
         else
           (let e2 = e1 @ [Notify (''[v3.3] Normalizing '' @ decimal (length nodes) @ '' icon(s)...'') False];
                icons = exportIcons h nodes
            in if length icons = 0 then
                 e2 @ [Notify ''No exportable icons found in selection.'' True, ClosePlugin]
               else e2 @ [PostMessage icons]))"

subsection \<open>Outline and flatten\<close>

text \<open>
  \<^verbatim>\<open>'strokes' in child && child.strokes && child.strokes.length > 0\<close>
\<close>

definition hasActiveStrokes :: "node \<Rightarrow> bool" where
  "hasActiveStrokes child =
     (case strokes (props child) of None \<Rightarrow> False | Some ps \<Rightarrow> length ps > 0)"

text \<open>
  \<open>collectStrokedNodes(parent)\<close>: the handles of the stroked descendants, each child
  before its own descendants. The parent itself is not looked at.
\<close>

fun collectStrokedNodes :: "node \<Rightarrow> nat list" where
  "collectStrokedNodes (Node p None) = []"
| "collectStrokedNodes (Node p (Some cs)) =
     concat (map (\<lambda>child.
        (if hasActiveStrokes child then [nid (props child)] else []) @
        (if children child \<noteq> None then collectStrokedNodes child else [])) cs)"

text \<open>
  The inner loop of a pass: a handle that reads as removed is skipped; otherwise
  \<open>outlineStroke\<close> is called, its result dropped and its throw swallowed.
\<close>

fun outlineEach :: "host \<Rightarrow> nat list \<Rightarrow> scene \<Rightarrow> scene" where
  "outlineEach h [] sc = sc"
| "outlineEach h (n # ns) sc =
     outlineEach h ns
       (if n \<in> set (removedIds sc) then sc else snd (outlineStroke h sc n))"

text \<open>
  \<^verbatim>\<open>for (let pass = 0; pass < 5; pass++) { ...; if (stroked.length === 0) break; ... }\<close>

  The result carries the value of \<open>pass\<close> when the loop is left, which is the number
  of passes that outlined something.
\<close>

function outlinePasses :: "host \<Rightarrow> props \<Rightarrow> nat \<Rightarrow> scene \<Rightarrow> nat \<times> scene" where
  "outlinePasses h p pass sc =
     (if pass < 5 then
        (let stroked = collectStrokedNodes (Node p (Some (kids sc)))
         in if length stroked = 0 then (pass, sc)
            else outlinePasses h p (pass + 1) (outlineEach h stroked sc))
      else (pass, sc))"
  by pat_completeness auto
termination
  by (relation "measure (\<lambda>(h, p, pass, sc). 5 - pass)") auto

declare outlinePasses.simps [simp del]

text \<open>
  \<^verbatim>\<open>x.strokes = []; x.strokeWeight = 0;\<close> inside a \<open>try\<close>: a write that throws ends
  the block, and what was written before stays written.
\<close>

definition forceClear :: "host \<Rightarrow> props \<Rightarrow> props" where
  "forceClear h p =
     (if strokesWriteThrows h (nid p) then p
      else (let p1 = p\<lparr>strokes := Some []\<rparr>
            in if strokeWeightWriteThrows h (nid p) then p1 else p1\<lparr>strokeWeight := 0\<rparr>))"

text \<open>
  The write through the handle that \<open>flatten\<close> returned:
  \<^verbatim>\<open>if (flat && 'strokes' in flat) { flat.strokes = []; flat.strokeWeight = 0; }\<close>
  reaches the node with that handle wherever it now is below the size-node; a handle
  that is not below the size-node changes nothing the pass can see.
\<close>

fun clearFlat :: "host \<Rightarrow> nat \<Rightarrow> node \<Rightarrow> node" where
  "clearFlat h flat (Node p cs) =
     Node (if nid p = flat \<and> strokes p \<noteq> None then forceClear h p else p)
          (map_option (map (clearFlat h flat)) cs)"

text \<open>Phase 2, with the write of phase 3 on the flattened result.\<close>

definition flattenPhase :: "host \<Rightarrow> props \<Rightarrow> scene \<Rightarrow> scene" where
  "flattenPhase h p sc =
     (if length (kids sc) > 0 then
        (case flatten h sc (map (\<lambda>c. nid (props c)) (kids sc)) (nid p) of
           (Inl e, sc') \<Rightarrow> sc'
         | (Inr None, sc') \<Rightarrow> sc'
         | (Inr (Some flat), sc') \<Rightarrow> sc'\<lparr>kids := map (clearFlat h flat) (kids sc')\<rparr>)
      else sc)"

text \<open>The safety loop over the size-node's children.\<close>

definition stripChild :: "host \<Rightarrow> node \<Rightarrow> node" where
  "stripChild h child =
     (if hasActiveStrokes child then Node (forceClear h (props child)) (children child)
      else child)"

text \<open>
  \<open>outlineAndFlatten(comp)\<close>. On entry every node below \<open>comp\<close> is live, so no
  handle that a scan can return reads as removed yet.
\<close>

definition outlineAndFlatten :: "host \<Rightarrow> node \<Rightarrow> node" where
  "outlineAndFlatten h compNode =
     (case children compNode of
        None \<Rightarrow> compNode
      | Some cs \<Rightarrow>
          (let sc1 = snd (outlinePasses h (props compNode) 0 \<lparr>kids = cs, removedIds = []\<rparr>);
               sc2 = flattenPhase h (props compNode) sc1
           in Node (props compNode) (Some (map (stripChild h) (kids sc2)))))"

subsection \<open>Creating nodes in the host document\<close>

text \<open>
  Modelled from the spec: the host's node-creation primitives (section 6, Host
  Document API), which are not part of the repository.
  \<open>figma.createComponent()\<close>, \<open>figma.createFrame()\<close>, \<open>figma.createText()\<close>: a
  node of the kind with the host's defaults and a handle of its own. Handles are
  handed out in increasing order; \<open>n\<close> is the next one. A text node has no child
  sequence, the other kinds start with an empty one.
\<close>

definition createNode :: "host \<Rightarrow> nat \<Rightarrow> ntype \<Rightarrow> node" where
  "createNode h n ty =
     Node ((defaults h ty)\<lparr>nid := n, ntype := ty\<rparr>) (if ty = TEXT then None else Some [])"

text \<open>
  Modelled from the spec: the host's reparenting primitive (section 4.5, "reparent all
  of its top-level children into the container").
  \<open>parent.appendChild(child)\<close> for a child that was just created or imported: it
  becomes the last child. Every parent the plugin appends to comes from
  \<open>createComponent\<close> or \<open>createFrame\<close> and has a child sequence.
\<close>

fun appendChild :: "node \<Rightarrow> node \<Rightarrow> node" where
  "appendChild (Node p (Some cs)) child = Node p (Some (cs @ [child]))"
| "appendChild (Node p None) child = Node p None"

text \<open>
  Modelled from the spec: the host's variant-grouping primitive (section 6: it "takes
  an ordered sequence of equally-shaped nodes plus a parent and returns one grouped
  node").
  \<open>figma.combineAsVariants(components, parent)\<close> when it does not throw: the
  components leave the parent's child sequence and become, in the order given, the
  children of a new component set, which is added to the parent as its last child.
  The new set has the handle \<open>n\<close>.
\<close>

definition combineAsVariants :: "host \<Rightarrow> nat \<Rightarrow> node list \<Rightarrow> node \<Rightarrow> node" where
  "combineAsVariants h n components parent =
     (let componentSet = Node (props (createNode h n COMPONENT_SET)) (Some components);
          moved = map (\<lambda>c. nid (props c)) components
      in (case parent of
            Node p (Some cs) \<Rightarrow>
              Node p (Some (filter (\<lambda>c. nid (props c) \<notin> set moved) cs @ [componentSet]))
          | Node p None \<Rightarrow> Node p None))"

text \<open>\<open>componentSet.name = baseName\<close>: a write through the handle of the new set.\<close>

definition renameChild :: "nat \<Rightarrow> string \<Rightarrow> node \<Rightarrow> node" where
  "renameChild n newName parent =
     (case parent of
        Node p cs \<Rightarrow>
          Node p (map_option (map (\<lambda>c. if nid (props c) = n
                                         then Node ((props c)\<lparr>name := newName\<rparr>) (children c)
                                         else c)) cs))"

subsection \<open>Output creation\<close>

text \<open>
  One entry of \<open>normalize-results\<close>: \<open>{name, svgs, error}\<close>, with \<open>svgs\<close> keyed by
  size and \<open>error = None\<close> for \<open>null\<close>. A result always has its \<open>svgs\<close> object;
  a size without an entry reads as \<open>undefined\<close>, which is \<open>None\<close> below.
\<close>

record result =
  rname :: string
  svgs :: "(nat \<times> string) list"
  error :: "string option"

text \<open>The output frame as it grows, and the next handle the host will hand out.\<close>

record doc =
  frame :: node
  nextId :: nat

text \<open>
  The body of the loop over \<open>sizes\<close> in \<open>createComponentSet\<close>, for one size. The
  \<open>try\<close> block can only throw before anything is appended: in \<open>createNodeFromSvg\<close>,
  or in spreading the children of a result that has none. The \<open>catch\<close> block creates
  the text node, then awaits the font, and a throw there leaves
  \<open>createComponentSet\<close>. The second component of the result is the next free handle.
\<close>

definition buildComponent :: "host \<Rightarrow> result \<Rightarrow> string \<Rightarrow> nat \<Rightarrow> nat \<Rightarrow> (exn + node) \<times> nat" where
  "buildComponent h result baseName sz n =
     (let svgStr = map_of (svgs result) sz;
          created = createNode h n COMPONENT;
          compNode = Node ((props created)\<lparr>name := sizeNodeName baseName sz,
                        width := sz, height := sz, clipsContent := True\<rparr>) (children created);
          imported = (case createNodeFromSvg h svgStr of
                        Inl e \<Rightarrow> None
                      | Inr svgNode \<Rightarrow> children svgNode)
      in (case imported of
            Some cs \<Rightarrow> (Inr (outlineAndFlatten h (foldl appendChild compNode cs)), n + 1)
          | None \<Rightarrow>
              (let created' = createNode h (n + 1) TEXT
               in (case loadFontAsync h of
                     Inl e \<Rightarrow> (Inl e, n + 2)
                   | Inr u \<Rightarrow>
                       (let text = Node ((props created')\<lparr>characters := ''?''\<rparr>) (children created')
                        in (Inr (appendChild compNode text), n + 2))))))"

text \<open>The loop over \<open>sizes\<close>: \<open>components\<close> in the order pushed, or the throw.\<close>

fun buildComponents :: "host \<Rightarrow> result \<Rightarrow> string \<Rightarrow> nat list \<Rightarrow> nat \<Rightarrow> (exn + node list) \<times> nat" where
  "buildComponents h result baseName [] n = (Inr [], n)"
| "buildComponents h result baseName (sz # szs) n =
     (case buildComponent h result baseName sz n of
        (Inl e, n') \<Rightarrow> (Inl e, n')
      | (Inr compNode, n') \<Rightarrow>
          (case buildComponents h result baseName szs n' of
             (Inl e, n'') \<Rightarrow> (Inl e, n'')
           | (Inr components, n'') \<Rightarrow> (Inr (compNode # components), n'')))"

text \<open>
  \<open>createComponentSet(result, parentFrame)\<close>: \<open>None\<close> when it returns, \<open>Some\<close> the
  exception when it throws, and the document as it is left either way (a throw of
  \<open>combineAsVariants\<close> comes after the components were appended to the frame).
\<close>

definition createComponentSet :: "host \<Rightarrow> result \<Rightarrow> doc \<Rightarrow> exn option \<times> doc" where
  "createComponentSet h result d =
     (let baseName = stripSizeSuffix (rname result)
      in (case buildComponents h result baseName sizes (nextId d) of
            (Inl e, n) \<Rightarrow> (Some e, d\<lparr>nextId := n\<rparr>)
          | (Inr components, n) \<Rightarrow>
              (let parentFrame = foldl appendChild (frame d) components
               in if combineAsVariantsThrows h components then
                    (Some Thrown, \<lparr>frame = parentFrame, nextId = n\<rparr>)
                  else
                    (None, \<lparr>frame = renameChild n baseName
                                       (combineAsVariants h n components parentFrame),
                            nextId = n + 1\<rparr>))))"

text \<open>
  The loop of \<open>createOutput\<close> over the successful results: a throw of
  \<open>createComponentSet\<close> is caught and logged, and the loop goes on.
\<close>

fun createAll :: "host \<Rightarrow> result list \<Rightarrow> doc \<Rightarrow> doc" where
  "createAll h [] d = d"
| "createAll h (result # results) d = createAll h results (snd (createComponentSet h result d))"

text \<open>
  \<^verbatim>\<open>let msg = `Created ${successResults.length} icon(s) as ComponentSets`;\<close>
  \<^verbatim>\<open>if (failedResults.length > 0) { msg += `. ${failedResults.length} failed.`; ... }\<close>
\<close>

definition reportMessage :: "nat \<Rightarrow> nat \<Rightarrow> string" where
  "reportMessage created failed =
     ''Created '' @ decimal created @ '' icon(s) as ComponentSets'' @
     (if failed > 0 then ''. '' @ decimal failed @ '' failed.'' else [])"

text \<open>
  The first lines of \<open>createOutput\<close> after the early return: the output frame is
  created and named. \<open>n\<close> is the next handle of the host when the call starts.
\<close>

definition createOutputFrame :: "host \<Rightarrow> nat \<Rightarrow> doc" where
  "createOutputFrame h n =
     (let created = createNode h n FRAME
      in \<lparr>frame = Node ((props created)\<lparr>name := ''Normalized Icons''\<rparr>) (children created),
          nextId = n + 1\<rparr>)"

text \<open>
  \<open>createOutput(results)\<close>: the output frame (\<open>None\<close> when none is created) and what
  the user sees.
\<close>

definition createOutput :: "host \<Rightarrow> nat \<Rightarrow> result list \<Rightarrow> node option \<times> effect list" where
  "createOutput h n results =
     (let successResults = filter (\<lambda>r. error r = None) results;
          failedResults = filter (\<lambda>r. error r \<noteq> None) results
      in if length successResults = 0 then
           (None, [Notify ''All icons failed to normalize. Check console for errors.'' True])
         else
           (let d = createAll h successResults (createOutputFrame h n);
                msg = reportMessage (length successResults) (length failedResults)
            in (Some (frame d),
                [Notify msg False, SetSelection [n], ScrollAndZoomIntoView [n]])))"

text \<open>The variant sets among the children of a container.\<close>

definition variantSets :: "node \<Rightarrow> node list" where
  "variantSets container =
     (case children container of
        None \<Rightarrow> []
      | Some cs \<Rightarrow> filter (\<lambda>c. ntype (props c) = COMPONENT_SET) cs)"

text \<open>The children of a node, none for a node without a child sequence.\<close>

definition childNodes :: "node \<Rightarrow> node list" where
  "childNodes n = (case children n of None \<Rightarrow> [] | Some cs \<Rightarrow> cs)"

subsection \<open>The specification's vocabulary\<close>

text \<open>
  The size suffix as the specification words it: an optional \<open>_\<close> or \<open>-\<close>
  separator, one of the numerals 16, 24, 32, and optional unit letters, matched
  without regard to case. The unit letters of the pattern are \<open>dp\<close>.
\<close>

definition sizeTails :: "string list" where
  "sizeTails =
     [num @ unit.
        num \<leftarrow> [''16'', ''24'', ''32''],
        unit \<leftarrow> ['''', ''dp'', ''dP'', ''Dp'', ''DP'']]"

definition sizeSuffixes :: "string list" where
  "sizeSuffixes = [sep @ t. sep \<leftarrow> ['''', ''_'', ''-''], t \<leftarrow> sizeTails]"

text \<open>
  VariantSetBase as the specification words it: the display name without its
  trailing size suffix (the whole of it, separator included), and the display name
  itself when it ends in no size suffix.
\<close>

definition variantSetBase :: "string \<Rightarrow> string" where
  "variantSetBase displayName =
     (case filter (\<lambda>sfx. suffix sfx displayName) sizeSuffixes of
        [] \<Rightarrow> displayName
      | sfx # sfxs \<Rightarrow>
          take (length displayName - Max (set (map length (sfx # sfxs)))) displayName)"

text \<open>
  A size-node of a variant set: a component named \<open>{base}_{size}\<close> and sized to the
  square of that size.
\<close>

definition isSizeNode :: "string \<Rightarrow> nat \<Rightarrow> node \<Rightarrow> bool" where
  "isSizeNode baseName sz c =
     (ntype (props c) = COMPONENT \<and> name (props c) = sizeNodeName baseName sz \<and>
      width (props c) = sz \<and> height (props c) = sz)"

text \<open>
  A variant set: a component set named by the base whose children are the size-nodes
  for 16, 24 and 32, one each, in that order.
\<close>

definition isVariantSet :: "string \<Rightarrow> node \<Rightarrow> bool" where
  "isVariantSet baseName s =
     (ntype (props s) = COMPONENT_SET \<and> name (props s) = baseName \<and>
      list_all2 (isSizeNode baseName) sizes (childNodes s))"

text \<open>
  How many calls of \<open>createComponentSet\<close> in the loop of \<open>createOutput\<close> return
  rather than throw: the number of icons whose variant set is really assembled.
\<close>

fun completions :: "host \<Rightarrow> result list \<Rightarrow> doc \<Rightarrow> nat" where
  "completions h [] d = 0"
| "completions h (result # results) d =
     (case createComponentSet h result d of
        (None, d') \<Rightarrow> Suc (completions h results d')
      | (Some e, d') \<Rightarrow> completions h results d')"

definition assembled :: "host \<Rightarrow> nat \<Rightarrow> result list \<Rightarrow> nat" where
  "assembled h n results =
     completions h (filter (\<lambda>r. error r = None) results) (createOutputFrame h n)"

text \<open>
  A document in which the output frame has a child sequence and every child of it has
  a handle the host handed out before: the state before and after every call of
  \<open>createComponentSet\<close>.
\<close>

definition tidy :: "doc \<Rightarrow> bool" where
  "tidy d =
     (children (frame d) \<noteq> None \<and>
      list_all (\<lambda>c. nid (props c) < nextId d) (childNodes (frame d)))"

text \<open>
  The immediate children of a size-node that still carry an active stroke although
  the host lets the plugin write their stroke attribute.
\<close>

definition strokedChildren :: "host \<Rightarrow> node \<Rightarrow> node list" where
  "strokedChildren h n =
     filter (\<lambda>c. hasActiveStrokes c \<and> \<not> strokesWriteThrows h (nid (props c))) (childNodes n)"

subsection \<open>Sample documents and hosts\<close>

definition blank :: props where
  "blank = \<lparr>nid = 0, ntype = FRAME, name = [], visible = True, hasExportAsync = True,
     strokes = Some [], strokeWeight = 1, width = 100, height = 100, clipsContent = False,
     characters = []\<rparr>"

text \<open>A vector leaf with the given handle and stroke paints; a group of nodes.\<close>

definition vector :: "nat \<Rightarrow> paint list \<Rightarrow> node" where
  "vector n ps = Node (blank\<lparr>nid := n, ntype := VECTOR, strokes := Some ps\<rparr>) None"

definition group :: "nat \<Rightarrow> node list \<Rightarrow> node" where
  "group n cs = Node (blank\<lparr>nid := n, ntype := GROUP, strokes := None\<rparr>) (Some cs)"

text \<open>
  A host on which every primitive that can throw does throw, leaving the scene as it
  was; property writes go through.
\<close>

definition brokenHost :: host where
  "brokenHost = \<lparr>exportAsync = (\<lambda>n. Inl Thrown),
     createNodeFromSvg = (\<lambda>s. Inl Thrown),
     outlineStroke = (\<lambda>sc n. (Inl Thrown, sc)),
     flatten = (\<lambda>sc ns p. (Inl Thrown, sc)),
     strokesWriteThrows = (\<lambda>n. False),
     strokeWeightWriteThrows = (\<lambda>n. False),
     loadFontAsync = Inl Thrown,
     combineAsVariantsThrows = (\<lambda>cs. True),
     defaults = (\<lambda>ty. blank)\<rparr>"

text \<open>
  A host on which nothing throws: markup imports as a frame holding one stroked path,
  \<open>outlineStroke\<close> returns a new outline and leaves the stroked node in place, and
  \<open>flatten\<close> replaces the children by a single vector that still has a stroke paint.
\<close>

definition calmHost :: host where
  "calmHost = \<lparr>exportAsync = (\<lambda>n. Inr ''<svg/>''),
     createNodeFromSvg = (\<lambda>s. Inr (group 100 [vector 101 [''ink'']])),
     outlineStroke = (\<lambda>sc n. (Inr (Some (n + 1000)), sc)),
     flatten = (\<lambda>sc ns p. (Inr (Some 900), sc\<lparr>kids := [vector 900 [''ink'']]\<rparr>)),
     strokesWriteThrows = (\<lambda>n. False),
     strokeWeightWriteThrows = (\<lambda>n. False),
     loadFontAsync = Inr (),
     combineAsVariantsThrows = (\<lambda>cs. False),
     defaults = (\<lambda>ty. blank)\<rparr>"

text \<open>The same host, except that grouping components into variants throws.\<close>

definition grumpyHost :: host where
  "grumpyHost = calmHost\<lparr>combineAsVariantsThrows := (\<lambda>cs. True)\<rparr>"

text \<open>
  A size-node whose imported content is a group around a stroked path, next to a
  stroked path of its own.
\<close>

definition nestedIcon :: node where
  "nestedIcon =
     Node (blank\<lparr>nid := 1, ntype := COMPONENT\<rparr>)
       (Some [group 2 [vector 3 [''ink'']], vector 4 [''ink'']])"

text \<open>A size-node with a stroked path two groups down, and what one run leaves of it.\<close>

definition deepIcon :: node where
  "deepIcon =
     Node (blank\<lparr>nid := 1, ntype := COMPONENT\<rparr>)
       (Some [vector 2 [''ink''], group 3 [group 4 [vector 5 [''ink'', ''glow'']]]])"

definition deepIconStripped :: node where
  "deepIconStripped =
     Node (blank\<lparr>nid := 1, ntype := COMPONENT\<rparr>)
       (Some [Node (blank\<lparr>nid := 2, ntype := VECTOR, strokes := Some [], strokeWeight := 0\<rparr>) None,
              group 3 [group 4 [vector 5 [''ink'', ''glow'']]]])"

text \<open>An instance that is hidden, with one child; a hidden vector leaf.\<close>

definition hiddenInstance :: node where
  "hiddenInstance =
     Node (blank\<lparr>nid := 7, ntype := INSTANCE, visible := False\<rparr>) (Some [vector 8 []])"

definition hiddenVector :: node where
  "hiddenVector = Node (blank\<lparr>nid := 9, ntype := VECTOR, visible := False\<rparr>) None"

text \<open>Normalization results: two that succeeded, one that failed, one named by a bare suffix.\<close>

definition homeResult :: result where
  "homeResult = \<lparr>rname = ''home_24'',
     svgs = [(16, ''<svg a/>''), (24, ''<svg b/>''), (32, ''<svg c/>'')], error = None\<rparr>"

definition starResult :: result where
  "starResult = \<lparr>rname = ''star'',
     svgs = [(16, ''<svg d/>''), (24, ''<svg e/>''), (32, ''<svg f/>'')], error = None\<rparr>"

definition failedResult :: result where
  "failedResult = \<lparr>rname = ''moon'', svgs = [], error = Some ''parse error''\<rparr>"

definition bareSuffixResult :: result where
  "bareSuffixResult = \<lparr>rname = ''_24dp'',
     svgs = [(16, ''<svg g/>''), (24, ''<svg h/>''), (32, ''<svg i/>'')], error = None\<rparr>"

section \<open>Properties\<close>

subsection \<open>The size-suffix pattern\<close>

lemma matchFromNumeral_iff: "matchFromNumeral s \<longleftrightarrow> s \<in> set sizeTails"
proof (cases s rule: matchNumeral.cases)
  case (1 a b r)
  then show ?thesis
    by (cases r rule: matchUnitEnd.cases) (auto simp: matchFromNumeral_def sizeTails_def)
qed (simp_all add: matchFromNumeral_def sizeTails_def)

lemma Nil_notin_sizeTails: "[] \<notin> set sizeTails"
  by (simp add: sizeTails_def)

text \<open>The pattern matches at a start position exactly when the rest of the name is a size suffix.\<close>

lemma matchHere_iff: "matchHere s \<longleftrightarrow> s \<in> set sizeSuffixes"
proof (cases s)
  case Nil
  then show ?thesis by (auto simp: sizeSuffixes_def Nil_notin_sizeTails)
next
  case (Cons c r)
  have "c # r \<in> set sizeSuffixes \<longleftrightarrow>
          c # r \<in> set sizeTails \<or> ((c = CHR ''_'' \<or> c = CHR ''-'') \<and> r \<in> set sizeTails)"
    by (auto simp: sizeSuffixes_def)
  then show ?thesis
    unfolding Cons by (auto simp: matchFromNumeral_iff isSeparator_def)
qed

lemma finite_suffixes: "finite {t. suffix t s \<and> P t}"
proof -
  have "{t. suffix t s \<and> P t} \<subseteq> set (suffixes s)" by auto
  then show ?thesis by (rule finite_subset) simp
qed

text \<open>
  Scanning start positions from the left finds the longest suffix that matches: what
  is dropped is that suffix, and nothing is dropped when no suffix matches.
\<close>

lemma stripSizeSuffix_longest:
  "stripSizeSuffix s =
     (if {t. suffix t s \<and> matchHere t} = {} then s
      else take (length s - Max (length ` {t. suffix t s \<and> matchHere t})) s)"
proof (induction s)
  case Nil
  have "{t. suffix t [] \<and> matchHere t} = {}" by auto
  then show ?case by simp
next
  case (Cons c r)
  let ?M = "{t. suffix t (c # r) \<and> matchHere t}"
  let ?R = "{t. suffix t r \<and> matchHere t}"
  show ?case
  proof (cases "matchHere (c # r)")
    case True
    have fin: "finite (length ` ?M)" by (intro finite_imageI finite_suffixes)
    have whole: "c # r \<in> ?M" using True by (simp del: matchHere.simps)
    then have mem: "length (c # r) \<in> length ` ?M" by (rule imageI)
    have "\<And>k. k \<in> length ` ?M \<Longrightarrow> k \<le> length (c # r)"
      by (auto dest: suffix_length_le)
    with fin mem have "Max (length ` ?M) = length (c # r)"
      by (intro Max_eqI) auto
    moreover have "?M \<noteq> {}" using whole by blast
    ultimately show ?thesis using True by (simp del: matchHere.simps)
  next
    case False
    then have eq: "?M = ?R" by (auto simp: suffix_Cons simp del: matchHere.simps)
    show ?thesis
    proof (cases "?R = {}")
      case True
      with False eq Cons.IH show ?thesis by (simp del: matchHere.simps)
    next
      case ne: False
      have fin: "finite (length ` ?R)" by (intro finite_imageI finite_suffixes)
      have "Max (length ` ?R) \<in> length ` ?R" using fin ne by (intro Max_in) auto
      then have "Max (length ` ?R) \<le> length r" by (auto dest: suffix_length_le)
      then have "take (length (c # r) - Max (length ` ?R)) (c # r) =
                 c # take (length r - Max (length ` ?R)) r"
        by (simp add: Suc_diff_le)
      with False eq ne Cons.IH show ?thesis by (auto simp del: matchHere.simps)
    qed
  qed
qed

text \<open>
  C5. For every display name, the base name the assembler derives is the display name
  with its trailing size suffix stripped (an optional \<open>_\<close> or \<open>-\<close>, one of 16, 24,
  32, an optional \<open>dp\<close> in either case), and the display name itself when it ends in
  no such suffix: the pattern replacement of the code computes VariantSetBase as the
  specification words it.
\<close>

theorem stripSizeSuffix_variantSetBase:
  "stripSizeSuffix displayName = variantSetBase displayName"
proof -
  let ?cands = "filter (\<lambda>sfx. suffix sfx displayName) sizeSuffixes"
  have set_eq: "set ?cands = {t. suffix t displayName \<and> matchHere t}"
    by (auto simp: matchHere_iff)
  show ?thesis
  proof (cases ?cands)
    case Nil
    with set_eq have "{t. suffix t displayName \<and> matchHere t} = {}" by simp
    with Nil show ?thesis by (simp add: variantSetBase_def stripSizeSuffix_longest)
  next
    case (Cons sfx sfxs)
    with set_eq have ne: "{t. suffix t displayName \<and> matchHere t} \<noteq> {}" by auto
    have "set (map length ?cands) = length ` {t. suffix t displayName \<and> matchHere t}"
      using set_eq by simp
    then have "Max (set (map length (sfx # sfxs))) =
               Max (length ` {t. suffix t displayName \<and> matchHere t})"
      using Cons by simp
    moreover have "variantSetBase displayName =
               take (length displayName - Max (set (map length (sfx # sfxs)))) displayName"
      using Cons by (simp add: variantSetBase_def)
    moreover have "stripSizeSuffix displayName =
               take (length displayName - Max (length ` {t. suffix t displayName \<and> matchHere t})) displayName"
      using ne by (subst stripSizeSuffix_longest) auto
    ultimately show ?thesis by simp
  qed
qed

text \<open>The names of the specification's own examples, and names that keep their end.\<close>

lemma stripSizeSuffix_examples:
  "stripSizeSuffix ''home_16'' = ''home''"
  "stripSizeSuffix ''Home-24DP'' = ''Home''"
  "stripSizeSuffix ''home32'' = ''home''"
  "stripSizeSuffix ''home'' = ''home''"
  "stripSizeSuffix ''home_24px'' = ''home_24px''"
  "stripSizeSuffix ''home_16_24'' = ''home_16''"
  by code_simp+

lemma stripSizeSuffix_no_suffix:
  assumes "\<And>sfx. sfx \<in> set sizeSuffixes \<Longrightarrow> \<not> suffix sfx displayName"
  shows "stripSizeSuffix displayName = displayName"
proof -
  have "{t. suffix t displayName \<and> matchHere t} = {}"
    using assms by (auto simp: matchHere_iff)
  then show ?thesis by (subst stripSizeSuffix_longest) simp
qed

lemma stripSizeSuffix_whole:
  "displayName \<in> set sizeSuffixes \<Longrightarrow> stripSizeSuffix displayName = []"
  by (cases displayName) (simp_all add: matchHere_iff del: matchHere.simps)

lemma decimal_sizes: "decimal 16 = ''16''" "decimal 24 = ''24''" "decimal 32 = ''32''"
  by code_simp+

lemma sizeNodeNames:
  "map (sizeNodeName baseName) sizes = [baseName @ ''_16'', baseName @ ''_24'', baseName @ ''_32'']"
  by (simp add: sizes_def sizeNodeName_def decimal_sizes)

subsection \<open>Selection reading and the start of the main flow\<close>

lemma getIconNodes_empty:
  "getIconNodes [] =
     ([], [Notify ''Please select one or more icons, or a frame containing icons.'' True,
           ClosePlugin])"
  by (simp add: getIconNodes_def)

text \<open>An empty selection is reported and closes the plugin; nothing else happens.\<close>

lemma main_empty_selection:
  "main h [] =
     [Notify ''Please select one or more icons, or a frame containing icons.'' True, ClosePlugin]"
  by (simp add: main_def getIconNodes_empty)

text \<open>
  A single container that is no component or instance and none of whose children is
  exportable falls through to the filter over the selection itself.
\<close>

lemma getIconNodes_fall_through:
  assumes "ntype p \<noteq> COMPONENT" and "ntype p \<noteq> INSTANCE"
    and "filter isExportableNode (c # cs) = []"
  shows "getIconNodes [Node p (Some (c # cs))] =
           (filter isExportableNode [Node p (Some (c # cs))], [])"
  using assms by (simp add: getIconNodes_def Let_def)

text \<open>Only the empty selection makes the resolver notify.\<close>

lemma getIconNodes_quiet: "sel \<noteq> [] \<Longrightarrow> snd (getIconNodes sel) = []"
  by (simp add: getIconNodes_def split: option.splits)

text \<open>
  When the selection is not empty and the resolver returns no icon, \<open>main\<close> returns
  at once: it neither notifies nor closes the plugin.
\<close>

lemma main_silent:
  assumes "sel \<noteq> []" and "fst (getIconNodes sel) = []"
  shows "main h sel = []"
proof -
  from assms(1) have "snd (getIconNodes sel) = []" by (rule getIconNodes_quiet)
  with assms(2) have "getIconNodes sel = ([], [])" by (simp add: prod_eq_iff)
  then show ?thesis by (simp add: main_def)
qed

text \<open>
  C8. The claim asks that the pipeline abort with a failure reported to the user
  whenever the final candidate list is empty. For a selection of one hidden vector the
  resolver returns the empty list without a notification, and \<open>main\<close> returns without
  notifying and without closing the plugin, on every host: the user is told nothing.
  (The empty selection is reported, and the fall-through to the broader rule holds:
  \<open>main_empty_selection\<close>, \<open>getIconNodes_fall_through\<close>.)
\<close>

theorem main_hidden_selection_unreported:
  "getIconNodes [hiddenVector] = ([], []) \<and> main h [hiddenVector] = []"
proof -
  have r: "getIconNodes [hiddenVector] = ([], [])"
    by (simp add: getIconNodes_def hiddenVector_def isExportableNode_def blank_def)
  then have "main h [hiddenVector] = []" by (simp add: main_def)
  with r show ?thesis by simp
qed

text \<open>
  C9. When the selection is exactly one node of component or instance kind with at
  least one child, the resolver returns that node itself as the only icon, whatever
  its visibility and whether or not it can be exported.
\<close>

theorem getIconNodes_single_component:
  assumes "ntype (props node) = COMPONENT \<or> ntype (props node) = INSTANCE"
    and "children node = Some cs" and "length cs > 0"
  shows "getIconNodes [node] = ([node], [])"
proof -
  from assms(3) obtain c cs' where cs: "cs = c # cs'" by (cases cs) auto
  with assms(2) have node: "node = Node (props node) (Some (c # cs'))"
    by (cases node) simp
  have "singleContainer [Node (props node) (Some (c # cs'))] =
          Some [Node (props node) (Some (c # cs'))]"
    using assms(1) by auto
  with node have "singleContainer [node] = Some [node]" by simp
  then show ?thesis by (simp add: getIconNodes_def)
qed

text \<open>The hidden instance goes on into the export and is sent for normalization.\<close>

lemma hidden_instance_is_processed:
  "main calmHost [hiddenInstance] =
     [Notify ''[v3.3] Normalizing 1 icon(s)...'' False, PostMessage [(''icon'', ''<svg/>'')]]"
  by code_simp

theorem getIconNodes_single_component_witness:
  "\<not> isExportableNode hiddenInstance \<and> \<not> visible (props hiddenInstance) \<and>
   getIconNodes [hiddenInstance] = ([hiddenInstance], [])"
proof -
  have k: "ntype (props hiddenInstance) = COMPONENT \<or> ntype (props hiddenInstance) = INSTANCE"
    by (simp add: hiddenInstance_def)
  have c: "children hiddenInstance = Some [vector 8 []]" by (simp add: hiddenInstance_def)
  have l: "length [vector 8 []] > 0" by simp
  have "getIconNodes [hiddenInstance] = ([hiddenInstance], [])"
    by (rule getIconNodes_single_component [OF k c l])
  moreover have "\<not> visible (props hiddenInstance)"
    by (simp add: hiddenInstance_def blank_def)
  ultimately show ?thesis by (simp add: isExportableNode_def)
qed

subsection \<open>The outline pass\<close>

text \<open>One round of the loop, unfolded: it goes on, stops on an empty scan, or is at the ceiling.\<close>

lemma outlinePasses_more:
  "pass < 5 \<Longrightarrow> collectStrokedNodes (Node p (Some (kids sc))) \<noteq> [] \<Longrightarrow>
   outlinePasses h p pass sc =
     outlinePasses h p (pass + 1) (outlineEach h (collectStrokedNodes (Node p (Some (kids sc)))) sc)"
  using outlinePasses.simps[of h p pass sc]
  by (simp add: Let_def del: collectStrokedNodes.simps)

lemma outlinePasses_stop:
  "collectStrokedNodes (Node p (Some (kids sc))) = [] \<Longrightarrow> outlinePasses h p pass sc = (pass, sc)"
  using outlinePasses.simps[of h p pass sc]
  by (simp add: Let_def del: collectStrokedNodes.simps)

lemma outlinePasses_ceiling: "\<not> pass < 5 \<Longrightarrow> outlinePasses h p pass sc = (pass, sc)"
  using outlinePasses.simps[of h p pass sc] by simp

lemma outlinePasses_bound: "pass \<le> 5 \<Longrightarrow> fst (outlinePasses h p pass sc) \<le> 5"
proof (induction h p pass sc rule: outlinePasses.induct)
  case (1 h p pass sc)
  show ?case
  proof (cases "pass < 5")
    case True
    show ?thesis
    proof (cases "collectStrokedNodes (Node p (Some (kids sc))) = []")
      case True
      with "1.prems" show ?thesis
        by (simp add: outlinePasses_stop del: collectStrokedNodes.simps)
    next
      case False
      have "fst (outlinePasses h p (pass + 1)
              (outlineEach h (collectStrokedNodes (Node p (Some (kids sc)))) sc)) \<le> 5"
        using \<open>pass < 5\<close> False by (intro "1.IH") (simp_all del: collectStrokedNodes.simps)
      then show ?thesis by (simp only: outlinePasses_more[OF \<open>pass < 5\<close> False])
    qed
  next
    case False
    with "1.prems" show ?thesis by (simp add: outlinePasses_ceiling)
  qed
qed

text \<open>A loop that ends below the ceiling ended on a scan that found nothing.\<close>

lemma outlinePasses_early:
  "outlinePasses h p pass sc = (k, sc') \<Longrightarrow> k < 5 \<Longrightarrow>
     collectStrokedNodes (Node p (Some (kids sc'))) = []"
proof (induction h p pass sc rule: outlinePasses.induct)
  case (1 h p pass sc)
  show ?case
  proof (cases "pass < 5")
    case True
    show ?thesis
    proof (cases "collectStrokedNodes (Node p (Some (kids sc))) = []")
      case True
      with "1.prems"(1) have "sc' = sc"
        by (simp add: outlinePasses_stop del: collectStrokedNodes.simps)
      with True show ?thesis by (simp only:)
    next
      case False
      have "outlinePasses h p (pass + 1)
              (outlineEach h (collectStrokedNodes (Node p (Some (kids sc)))) sc) = (k, sc')"
        using "1.prems"(1) by (simp only: outlinePasses_more[OF \<open>pass < 5\<close> False])
      then show ?thesis
        using \<open>pass < 5\<close> False "1.prems"(2)
        by (intro "1.IH") (simp_all del: collectStrokedNodes.simps)
    qed
  next
    case False
    with "1.prems"(1) have "k = pass" by (simp add: outlinePasses_ceiling)
    with False "1.prems"(2) show ?thesis by simp
  qed
qed

lemma outlineAndFlatten_phases:
  "outlineAndFlatten h (Node p (Some cs)) =
     Node p (Some (map (stripChild h)
       (kids (flattenPhase h p (snd (outlinePasses h p 0 \<lparr>kids = cs, removedIds = []\<rparr>))))))"
  by (simp add: outlineAndFlatten_def Let_def)

text \<open>
  C6. The outline pass ends on every input (the loop is a total function: its counter
  rises to the ceiling, and each host call returns or throws). From any pass up to the
  ceiling it leaves the loop with at most 5 passes done; a scan that finds no stroked
  node ends it at once, with no host call and the scene untouched; when it ends below
  the ceiling the last scan found nothing; and whatever the loop leaves, stroked
  nodes or not, the geometry pass goes on to the flatten phase and the strip loop and
  returns a node.
\<close>

theorem outline_pass_terminates_within_ceiling:
  "(pass \<le> 5 \<longrightarrow> fst (outlinePasses h p pass sc) \<le> 5) \<and>
   (collectStrokedNodes (Node p (Some (kids sc))) = [] \<longrightarrow>
      outlinePasses h p pass sc = (pass, sc)) \<and>
   (fst (outlinePasses h p pass sc) < 5 \<longrightarrow>
      collectStrokedNodes (Node p (Some (kids (snd (outlinePasses h p pass sc))))) = []) \<and>
   outlineAndFlatten h (Node p (Some cs)) =
     Node p (Some (map (stripChild h)
       (kids (flattenPhase h p (snd (outlinePasses h p 0 \<lparr>kids = cs, removedIds = []\<rparr>))))))"
proof -
  have a: "pass \<le> 5 \<longrightarrow> fst (outlinePasses h p pass sc) \<le> 5"
    by (simp add: outlinePasses_bound)
  have b: "collectStrokedNodes (Node p (Some (kids sc))) = [] \<longrightarrow>
      outlinePasses h p pass sc = (pass, sc)"
    using outlinePasses_stop by blast
  have c: "fst (outlinePasses h p pass sc) < 5 \<longrightarrow>
      collectStrokedNodes (Node p (Some (kids (snd (outlinePasses h p pass sc))))) = []"
    using outlinePasses_early[of h p pass sc "fst (outlinePasses h p pass sc)"
            "snd (outlinePasses h p pass sc)"]
    by (simp del: collectStrokedNodes.simps)
  show ?thesis using a b c outlineAndFlatten_phases by blast
qed

text \<open>
  At the ceiling: on the host where every outlining throws, five passes are made, the
  stroke is still there, and the geometry pass still returns, its strip loop having
  cleared the stroke of the child.
\<close>

lemma outline_pass_at_ceiling:
  "outlinePasses brokenHost blank 0 \<lparr>kids = [vector 3 [''ink'']], removedIds = []\<rparr> =
     (5, \<lparr>kids = [vector 3 [''ink'']], removedIds = []\<rparr>)"
  "collectStrokedNodes (Node blank (Some [vector 3 [''ink'']])) = [3]"
  "collectStrokedNodes (outlineAndFlatten brokenHost (Node blank (Some [vector 3 [''ink'']]))) = []"
  by code_simp+

theorem outline_pass_terminates_within_ceiling_witness:
  "fst (outlinePasses calmHost blank 0 \<lparr>kids = [vector 3 []], removedIds = []\<rparr>) \<le> 5 \<and>
   outlinePasses calmHost blank 0 \<lparr>kids = [vector 3 []], removedIds = []\<rparr> =
     (0, \<lparr>kids = [vector 3 []], removedIds = []\<rparr>) \<and>
   collectStrokedNodes (Node blank (Some (kids (snd
     (outlinePasses calmHost blank 0 \<lparr>kids = [vector 3 []], removedIds = []\<rparr>))))) = []"
proof -
  let ?sc = "\<lparr>kids = [vector 3 []], removedIds = []\<rparr>"
  note t = outline_pass_terminates_within_ceiling [of 0 calmHost blank ?sc "[vector 3 []]"]
  have scan: "collectStrokedNodes (Node blank (Some (kids ?sc))) = []" by code_simp
  have le: "(0::nat) \<le> 5" by simp
  have bound: "fst (outlinePasses calmHost blank 0 ?sc) \<le> 5"
    by (rule mp [OF conjunct1 [OF t] le])
  have stop: "outlinePasses calmHost blank 0 ?sc = (0, ?sc)"
    by (rule mp [OF conjunct1 [OF conjunct2 [OF t]] scan])
  have less: "fst (outlinePasses calmHost blank 0 ?sc) < 5"
    by (simp add: stop)
  have after: "collectStrokedNodes (Node blank (Some (kids (snd
     (outlinePasses calmHost blank 0 ?sc))))) = []"
    by (rule mp [OF conjunct1 [OF conjunct2 [OF conjunct2 [OF t]]] less])
  show ?thesis by (intro conjI bound stop after)
qed

subsection \<open>The strip loop\<close>

lemma nid_forceClear [simp]: "nid (forceClear h p) = nid p"
  by (simp add: forceClear_def Let_def)

lemma nid_stripChild [simp]: "nid (props (stripChild h c)) = nid (props c)"
  by (simp add: stripChild_def)

lemma stripChild_clean:
  assumes "\<not> strokesWriteThrows h (nid (props c))"
  shows "\<not> hasActiveStrokes (stripChild h c)"
proof (cases "hasActiveStrokes c")
  case True
  then have "stripChild h c = Node (forceClear h (props c)) (children c)"
    by (simp add: stripChild_def)
  moreover have "strokes (forceClear h (props c)) = Some []"
    using assms by (simp add: forceClear_def Let_def)
  ultimately show ?thesis by (simp add: hasActiveStrokes_def)
next
  case False
  then show ?thesis by (simp add: stripChild_def)
qed

text \<open>
  After the geometry pass no immediate child that the host lets be written carries an
  active stroke, whatever the outlining and the flattening did before.
\<close>

lemma children_stroke_free:
  assumes "children (outlineAndFlatten h compNode) = Some cs" and "c \<in> set cs"
    and "\<not> strokesWriteThrows h (nid (props c))"
  shows "\<not> hasActiveStrokes c"
proof (cases compNode)
  case (Node p ocs)
  show ?thesis
  proof (cases ocs)
    case None
    with Node have "outlineAndFlatten h compNode = compNode"
      by (simp add: outlineAndFlatten_def)
    with Node None assms(1) show ?thesis by simp
  next
    case (Some xs)
    with Node assms(1,2) obtain k where "c = stripChild h k"
      by (auto simp: outlineAndFlatten_phases)
    with assms(3) show ?thesis using stripChild_clean[of h k] by simp
  qed
qed

lemma strokedChildren_empty: "strokedChildren h (outlineAndFlatten h compNode) = []"
proof (cases "children (outlineAndFlatten h compNode)")
  case None
  then show ?thesis by (simp add: strokedChildren_def childNodes_def)
next
  case (Some cs)
  then have "\<And>c. c \<in> set cs \<Longrightarrow>
      \<not> (hasActiveStrokes c \<and> \<not> strokesWriteThrows h (nid (props c)))"
    using children_stroke_free[of h compNode cs] by blast
  with Some show ?thesis
    by (simp add: strokedChildren_def childNodes_def filter_empty_conv)
qed

text \<open>
  C1, as the code has it. The strip loop visits the immediate children of the
  size-node only: after the geometry pass returns, every immediate child whose stroke
  attribute the host lets be written carries no active stroke, on every host, so also
  when every outlining call and the flatten call failed.
\<close>

theorem outlineAndFlatten_children_stroke_free:
  assumes "children (outlineAndFlatten h compNode) = Some cs" and "c \<in> set cs"
    and "\<not> strokesWriteThrows h (nid (props c))"
  shows "\<not> hasActiveStrokes c"
  using assms by (rule children_stroke_free)

theorem outlineAndFlatten_children_stroke_free_witness:
  "children (outlineAndFlatten brokenHost nestedIcon) =
     Some [group 2 [vector 3 [''ink'']],
           Node (blank\<lparr>nid := 4, ntype := VECTOR, strokes := Some [], strokeWeight := 0\<rparr>) None] \<and>
   \<not> hasActiveStrokes
       (Node (blank\<lparr>nid := 4, ntype := VECTOR, strokes := Some [], strokeWeight := 0\<rparr>) None)"
proof -
  let ?c = "Node (blank\<lparr>nid := 4, ntype := VECTOR, strokes := Some [], strokeWeight := 0\<rparr>) None"
  have run: "children (outlineAndFlatten brokenHost nestedIcon) =
     Some [group 2 [vector 3 [''ink'']], ?c]" by code_simp
  have mem: "?c \<in> set [group 2 [vector 3 [''ink'']], ?c]" by simp
  have w: "\<not> strokesWriteThrows brokenHost (nid (props ?c))" by (simp add: brokenHost_def)
  from outlineAndFlatten_children_stroke_free [OF run mem w] run show ?thesis by simp
qed

text \<open>
  C1, as stated, fails: on the host where outlining and flattening throw, the stroked
  path inside the group of \<open>nestedIcon\<close> keeps its stroke, and a scan of the
  size-node after the geometry pass still finds it. The stroke writes themselves all
  go through on that host.
\<close>

theorem nested_stroke_survives:
  "collectStrokedNodes (outlineAndFlatten brokenHost nestedIcon) = [3]"
  by code_simp

text \<open>
  C7, as the code has it. After a first and after a second run of the geometry pass
  no immediate child whose stroke attribute the host lets be written carries an
  active stroke; the count of such children is zero after the first run and unchanged
  by the second.
\<close>

theorem outlineAndFlatten_twice_children:
  "length (strokedChildren h (outlineAndFlatten h compNode)) = 0 \<and>
   length (strokedChildren h (outlineAndFlatten h (outlineAndFlatten h compNode))) =
     length (strokedChildren h (outlineAndFlatten h compNode))"
  by (simp add: strokedChildren_empty)

text \<open>
  C7, as stated, fails: on the host where outlining and flattening throw, the first
  run on \<open>deepIcon\<close> clears the stroke of the child and leaves the path two groups
  down stroked, and the second run changes nothing: one active stroke is found after
  each run.
\<close>

theorem deep_stroke_survives_both_runs:
  "outlineAndFlatten brokenHost deepIcon = deepIconStripped \<and>
   outlineAndFlatten brokenHost deepIconStripped = deepIconStripped \<and>
   collectStrokedNodes deepIconStripped = [5]"
  by code_simp

subsection \<open>Assembling one variant set\<close>

lemma props_outlineAndFlatten [simp]: "props (outlineAndFlatten h c) = props c"
  by (simp add: outlineAndFlatten_def Let_def split: option.splits)

lemma props_appendChild [simp]: "props (appendChild c x) = props c"
  by (cases "(c, x)" rule: appendChild.cases) simp_all

lemma props_foldl_appendChild [simp]: "props (foldl appendChild c cs) = props c"
  by (induction cs arbitrary: c) simp_all

lemma foldl_appendChild_Some:
  "foldl appendChild (Node p (Some xs)) cs = Node p (Some (xs @ cs))"
  by (induction cs arbitrary: xs) simp_all

text \<open>A size-node that is built has the name, the size and the handle it was created with.\<close>

lemma buildComponent_Inr:
  assumes "buildComponent h r b sz n = (Inr c, n')"
  shows "isSizeNode b sz c \<and> nid (props c) = n \<and> n < n'"
  using assms
  by (auto simp: buildComponent_def Let_def createNode_def isSizeNode_def foldl_appendChild_Some
           split: option.splits sum.splits)

lemma buildComponent_next: "n < snd (buildComponent h r b sz n)"
  by (auto simp: buildComponent_def Let_def split: option.splits sum.splits)

lemma buildComponents_next: "n \<le> snd (buildComponents h r b szs n)"
proof (induction szs arbitrary: n)
  case Nil
  show ?case by simp
next
  case (Cons sz szs)
  have a: "n < snd (buildComponent h r b sz n)" by (rule buildComponent_next)
  have b: "snd (buildComponent h r b sz n) \<le>
           snd (buildComponents h r b szs (snd (buildComponent h r b sz n)))"
    by (rule Cons.IH)
  show ?case using a b
    by (auto split: prod.splits sum.splits)
qed

lemma buildComponents_Inr:
  assumes "buildComponents h r b szs n = (Inr cs, n')"
  shows "list_all2 (isSizeNode b) szs cs \<and>
         (\<forall>c \<in> set cs. n \<le> nid (props c) \<and> nid (props c) < n') \<and> n \<le> n'"
  using assms
proof (induction szs arbitrary: n cs n')
  case Nil
  then show ?case by simp
next
  case (Cons sz szs)
  from Cons.prems obtain c m cs' where
    bc: "buildComponent h r b sz n = (Inr c, m)" and
    bcs: "buildComponents h r b szs m = (Inr cs', n')" and cs: "cs = c # cs'"
    by (auto split: prod.splits sum.splits)
  from buildComponent_Inr[OF bc] have c: "isSizeNode b sz c" "nid (props c) = n" "n < m" by auto
  from Cons.IH[OF bcs] have ih: "list_all2 (isSizeNode b) szs cs'"
    "\<forall>c \<in> set cs'. m \<le> nid (props c) \<and> nid (props c) < n'" "m \<le> n'" by auto
  show ?case using c ih cs by auto
qed

lemma tidyE:
  assumes "tidy d"
  obtains p old where "frame d = Node p (Some old)"
    and "list_all (\<lambda>c. nid (props c) < nextId d) old"
proof -
  from assms obtain old where c: "children (frame d) = Some old"
    by (auto simp: tidy_def)
  then have f: "frame d = Node (props (frame d)) (Some old)" by (cases "frame d") simp
  from assms c have "list_all (\<lambda>c. nid (props c) < nextId d) old"
    by (simp add: tidy_def childNodes_def)
  with f show ?thesis by (rule that)
qed

text \<open>
  A call of \<open>createComponentSet\<close> that returns adds exactly one variant set, named by
  the base, as the last child of the frame, and nothing else.
\<close>

lemma createComponentSet_None:
  assumes run: "createComponentSet h r d = (None, d')"
    and fr: "frame d = Node p (Some old)"
    and below: "list_all (\<lambda>c. nid (props c) < nextId d) old"
  shows "\<exists>s. frame d' = Node p (Some (old @ [s])) \<and> isVariantSet (stripSizeSuffix (rname r)) s \<and>
             nid (props s) < nextId d' \<and> nextId d \<le> nextId d'"
proof -
  let ?b = "stripSizeSuffix (rname r)"
  from run obtain cs n where
    bcs: "buildComponents h r ?b sizes (nextId d) = (Inr cs, n)" and
    d': "d' = \<lparr>frame = renameChild n ?b (combineAsVariants h n cs (foldl appendChild (frame d) cs)),
               nextId = n + 1\<rparr>"
    by (auto simp: createComponentSet_def Let_def split: prod.splits sum.splits if_splits)
  from buildComponents_Inr[OF bcs] have
    shape: "list_all2 (isSizeNode ?b) sizes cs" and
    ids: "\<forall>c \<in> set cs. nextId d \<le> nid (props c) \<and> nid (props c) < n" and
    le: "nextId d \<le> n" by auto
  let ?set = "Node (props (createNode h n COMPONENT_SET)) (Some cs)"
  have keep: "filter (\<lambda>c. nid (props c) \<notin> (\<lambda>c. nid (props c)) ` set cs) old = old"
    using below ids by (fastforce simp: list_all_iff filter_id_conv)
  have drop: "filter (\<lambda>c. nid (props c) \<notin> (\<lambda>c. nid (props c)) ` set cs) cs = []"
    by (auto simp: filter_empty_conv)
  have comb: "combineAsVariants h n cs (foldl appendChild (frame d) cs) = Node p (Some (old @ [?set]))"
    by (simp add: combineAsVariants_def Let_def fr foldl_appendChild_Some keep drop)
  have old_ids: "map (\<lambda>c. if nid (props c) = n then Node ((props c)\<lparr>name := ?b\<rparr>) (children c) else c) old = old"
    using below le by (auto simp: list_all_iff intro!: map_idI)
  let ?s = "Node ((props (createNode h n COMPONENT_SET))\<lparr>name := ?b\<rparr>) (Some cs)"
  have ren: "renameChild n ?b (Node p (Some (old @ [?set]))) = Node p (Some (old @ [?s]))"
    by (simp add: renameChild_def old_ids createNode_def)
  have "isVariantSet ?b ?s"
    using shape by (simp add: isVariantSet_def createNode_def childNodes_def)
  moreover have "frame d' = Node p (Some (old @ [?s]))" by (simp add: d' comb ren)
  moreover have "nid (props ?s) < nextId d'" by (simp add: d' createNode_def)
  moreover have "nextId d \<le> nextId d'" using le by (simp add: d')
  ultimately show ?thesis by blast
qed

text \<open>
  A call that throws adds no variant set: the frame is as before, or has gained the
  size-nodes that were appended before \<open>combineAsVariants\<close> threw.
\<close>

lemma createComponentSet_Some:
  assumes run: "createComponentSet h r d = (Some e, d')"
    and fr: "frame d = Node p (Some old)"
    and below: "list_all (\<lambda>c. nid (props c) < nextId d) old"
  shows "\<exists>orphans. frame d' = Node p (Some (old @ orphans)) \<and>
           list_all (\<lambda>c. ntype (props c) = COMPONENT \<and> nid (props c) < nextId d') orphans \<and>
           nextId d \<le> nextId d'"
proof -
  let ?b = "stripSizeSuffix (rname r)"
  obtain res n where bcs: "buildComponents h r ?b sizes (nextId d) = (res, n)"
    by (cases "buildComponents h r ?b sizes (nextId d)")
  have le: "nextId d \<le> n" using buildComponents_next[of "nextId d" h r ?b sizes] bcs by simp
  show ?thesis
  proof (cases res)
    case (Inl e')
    with run bcs have "d' = d\<lparr>nextId := n\<rparr>"
      by (simp add: createComponentSet_def Let_def)
    then have "frame d' = Node p (Some (old @ []))" "nextId d' = n" using fr by simp_all
    with le show ?thesis by (intro exI[of _ "[]"]) simp
  next
    case (Inr cs)
    with run bcs have d': "d' = \<lparr>frame = foldl appendChild (frame d) cs, nextId = n\<rparr>"
      by (simp add: createComponentSet_def Let_def split: if_splits)
    from buildComponents_Inr[OF bcs[unfolded Inr]] have
      shape: "list_all2 (isSizeNode ?b) sizes cs" and
      ids: "\<forall>c \<in> set cs. nextId d \<le> nid (props c) \<and> nid (props c) < n" by auto
    have "\<forall>c \<in> set cs. ntype (props c) = COMPONENT"
      using shape by (auto simp: list_all2_conv_all_nth in_set_conv_nth isSizeNode_def)
    with ids have "list_all (\<lambda>c. ntype (props c) = COMPONENT \<and> nid (props c) < nextId d') cs"
      by (simp add: list_all_iff d')
    moreover have "frame d' = Node p (Some (old @ cs))"
      by (simp add: d' fr foldl_appendChild_Some)
    moreover have "nextId d \<le> nextId d'" using le by (simp add: d')
    ultimately show ?thesis by blast
  qed
qed

lemma isVariantSet_ntype: "isVariantSet b s \<Longrightarrow> ntype (props s) = COMPONENT_SET"
  by (simp add: isVariantSet_def)

lemma isVariantSet_children:
  assumes "isVariantSet b s"
  shows "map (\<lambda>c. (width (props c), height (props c))) (childNodes s) = [(16, 16), (24, 24), (32, 32)]"
    and "map (\<lambda>c. name (props c)) (childNodes s) = map (sizeNodeName b) sizes"
    and "list_all (\<lambda>c. ntype (props c) = COMPONENT) (childNodes s)"
proof -
  from assms have "list_all2 (isSizeNode b) [16, 24, 32] (childNodes s)"
    by (simp add: isVariantSet_def sizes_def)
  then obtain c1 c2 c3 where cs: "childNodes s = [c1, c2, c3]"
    and c: "isSizeNode b 16 c1" "isSizeNode b 24 c2" "isSizeNode b 32 c3"
    by (auto simp: list_all2_Cons1)
  show "map (\<lambda>c. (width (props c), height (props c))) (childNodes s) = [(16, 16), (24, 24), (32, 32)]"
    using cs c by (simp add: isSizeNode_def)
  show "map (\<lambda>c. name (props c)) (childNodes s) = map (sizeNodeName b) sizes"
    using cs c by (simp add: isSizeNode_def sizes_def)
  show "list_all (\<lambda>c. ntype (props c) = COMPONENT) (childNodes s)"
    using cs c by (simp add: isSizeNode_def)
qed

subsection \<open>The loop over the results and the report\<close>

lemma completions_le: "completions h rs d \<le> length rs"
proof (induction rs arbitrary: d)
  case Nil
  show ?case by simp
next
  case (Cons r rs)
  obtain o' d' where step: "createComponentSet h r d = (o', d')"
    by (cases "createComponentSet h r d")
  from Cons.IH[of d'] show ?case using step by (cases o') auto
qed

text \<open>
  The frame gains one variant set for each call that returns and none for a call
  that throws.
\<close>

lemma createAll_count:
  assumes "frame d = Node p (Some old)"
    and "list_all (\<lambda>c. nid (props c) < nextId d) old"
  shows "length (variantSets (frame (createAll h rs d))) =
         length (variantSets (frame d)) + completions h rs d"
  using assms
proof (induction rs arbitrary: d old)
  case Nil
  show ?case by simp
next
  case (Cons r rs)
  obtain o' d' where step: "createComponentSet h r d = (o', d')"
    by (cases "createComponentSet h r d")
  show ?case
  proof (cases o')
    case None
    from createComponentSet_None[OF step[unfolded None] Cons.prems] obtain s where
      s: "frame d' = Node p (Some (old @ [s]))" "isVariantSet (stripSizeSuffix (rname r)) s"
         "nid (props s) < nextId d'" "nextId d \<le> nextId d'" by blast
    have below: "list_all (\<lambda>c. nid (props c) < nextId d') (old @ [s])"
      using Cons.prems(2) s(3,4) by (auto simp: list_all_iff)
    have "length (variantSets (frame d')) = Suc (length (variantSets (frame d)))"
      using s(1,2) Cons.prems(1) by (simp add: variantSets_def isVariantSet_ntype)
    with Cons.IH[OF s(1) below] step None show ?thesis by simp
  next
    case (Some e)
    from createComponentSet_Some[OF step[unfolded Some] Cons.prems] obtain orphans where
      o: "frame d' = Node p (Some (old @ orphans))"
         "list_all (\<lambda>c. ntype (props c) = COMPONENT \<and> nid (props c) < nextId d') orphans"
         "nextId d \<le> nextId d'" by blast
    have below: "list_all (\<lambda>c. nid (props c) < nextId d') (old @ orphans)"
      using Cons.prems(2) o(2,3) by (auto simp: list_all_iff)
    have "filter (\<lambda>c. ntype (props c) = COMPONENT_SET) orphans = []"
      using o(2) by (auto simp: list_all_iff filter_empty_conv)
    then have "length (variantSets (frame d')) = length (variantSets (frame d))"
      using o(1) Cons.prems(1) by (simp add: variantSets_def)
    with Cons.IH[OF o(1) below] step Some show ?thesis by simp
  qed
qed

text \<open>When every call returns, the frame gains the variant sets of the results, in their order, and nothing else.\<close>

lemma createAll_complete:
  assumes "frame d = Node p (Some old)"
    and "list_all (\<lambda>c. nid (props c) < nextId d) old"
    and "completions h rs d = length rs"
  shows "\<exists>new. frame (createAll h rs d) = Node p (Some (old @ new)) \<and>
           list_all2 (\<lambda>r s. isVariantSet (stripSizeSuffix (rname r)) s) rs new"
  using assms
proof (induction rs arbitrary: d old)
  case Nil
  then show ?case by simp
next
  case (Cons r rs)
  obtain o' d' where step: "createComponentSet h r d = (o', d')"
    by (cases "createComponentSet h r d")
  show ?case
  proof (cases o')
    case None
    from createComponentSet_None[OF step[unfolded None] Cons.prems(1,2)] obtain s where
      s: "frame d' = Node p (Some (old @ [s]))" "isVariantSet (stripSizeSuffix (rname r)) s"
         "nid (props s) < nextId d'" "nextId d \<le> nextId d'" by blast
    have below: "list_all (\<lambda>c. nid (props c) < nextId d') (old @ [s])"
      using Cons.prems(2) s(3,4) by (auto simp: list_all_iff)
    have all: "completions h rs d' = length rs" using Cons.prems(3) step None by simp
    from Cons.IH[OF s(1) below all] obtain new where
      new: "frame (createAll h rs d') = Node p (Some ((old @ [s]) @ new))"
           "list_all2 (\<lambda>r s. isVariantSet (stripSizeSuffix (rname r)) s) rs new" by blast
    have "frame (createAll h (r # rs) d) = Node p (Some (old @ (s # new)))"
      using new(1) step by simp
    moreover have "list_all2 (\<lambda>r s. isVariantSet (stripSizeSuffix (rname r)) s) (r # rs) (s # new)"
      using new(2) s(2) by simp
    ultimately show ?thesis by blast
  next
    case (Some e)
    with Cons.prems(3) step have "completions h rs d' = Suc (length rs)" by simp
    with completions_le[of h rs d'] show ?thesis by simp
  qed
qed

lemma createOutputFrame_fresh:
  "frame (createOutputFrame h n) =
     Node ((defaults h FRAME)\<lparr>nid := n, ntype := FRAME, name := ''Normalized Icons''\<rparr>) (Some [])"
  "nextId (createOutputFrame h n) = n + 1"
  by (simp_all add: createOutputFrame_def createNode_def Let_def)

text \<open>
  What \<open>createOutput\<close> reports when at least one result succeeded: the two counts are
  the numbers of results without and with an error, whatever the loop did.
\<close>

lemma createOutput_report:
  assumes "filter (\<lambda>r. error r = None) results \<noteq> []"
  shows "createOutput h n results =
           (Some (frame (createAll h (filter (\<lambda>r. error r = None) results) (createOutputFrame h n))),
            [Notify (reportMessage (length (filter (\<lambda>r. error r = None) results))
                                   (length (filter (\<lambda>r. error r \<noteq> None) results))) False,
             SetSelection [n], ScrollAndZoomIntoView [n]])"
  using assms by (simp add: createOutput_def Let_def)

text \<open>The output frame holds as many variant sets as assemblies completed.\<close>

lemma createOutput_sets:
  assumes "filter (\<lambda>r. error r = None) results \<noteq> []"
  shows "\<exists>out. fst (createOutput h n results) = Some out \<and>
           length (variantSets out) = assembled h n results"
proof -
  let ?ok = "filter (\<lambda>r. error r = None) results"
  have "length (variantSets (frame (createAll h ?ok (createOutputFrame h n)))) =
        length (variantSets (frame (createOutputFrame h n))) + completions h ?ok (createOutputFrame h n)"
    by (rule createAll_count[OF createOutputFrame_fresh(1)]) simp
  then have "length (variantSets (frame (createAll h ?ok (createOutputFrame h n)))) =
        assembled h n results"
    by (simp add: createOutputFrame_fresh variantSets_def assembled_def)
  then show ?thesis by (simp add: createOutput_report[OF assms])
qed

text \<open>
  C2, as the code has it. For every batch of N \<ge> 1 results that all succeeded, and for
  which the assembly of every icon completes (no call of \<open>createComponentSet\<close>
  throws), the children of the output frame are exactly N variant sets, one per
  result in the order of the results, each a component set named by the base whose
  children are exactly 3 size-nodes sized 16, 24 and 32 in that order.
\<close>

theorem createOutput_all_assembled:
  assumes "length results \<ge> 1"
    and "list_all (\<lambda>r. error r = None) results"
    and "assembled h n results = length results"
  shows "\<exists>q sets. fst (createOutput h n results) = Some (Node q (Some sets)) \<and>
           length sets = length results \<and>
           list_all2 (\<lambda>r s. isVariantSet (stripSizeSuffix (rname r)) s) results sets \<and>
           list_all (\<lambda>s. ntype (props s) = COMPONENT_SET \<and>
              map (\<lambda>c. (width (props c), height (props c))) (childNodes s) =
                [(16, 16), (24, 24), (32, 32)]) sets"
proof -
  from assms(2) have ok: "filter (\<lambda>r. error r = None) results = results"
    by (simp add: list_all_iff filter_id_conv)
  from assms(1) have ne: "filter (\<lambda>r. error r = None) results \<noteq> []"
    unfolding ok by auto
  have all: "completions h results (createOutputFrame h n) = length results"
    using assms(3) by (simp add: assembled_def ok)
  have below: "list_all (\<lambda>c. nid (props c) < nextId (createOutputFrame h n)) []" by simp
  from createAll_complete[OF createOutputFrame_fresh(1) below all] obtain sets where
    fr: "frame (createAll h results (createOutputFrame h n)) =
          Node ((defaults h FRAME)\<lparr>nid := n, ntype := FRAME, name := ''Normalized Icons''\<rparr>)
            (Some ([] @ sets))"
    and sets: "list_all2 (\<lambda>r s. isVariantSet (stripSizeSuffix (rname r)) s) results sets"
    by blast
  have out: "fst (createOutput h n results) =
      Some (Node ((defaults h FRAME)\<lparr>nid := n, ntype := FRAME, name := ''Normalized Icons''\<rparr>)
             (Some sets))"
    using fr by (simp add: createOutput_report[OF ne] ok)
  have len: "length sets = length results"
    using sets by (simp add: list_all2_lengthD)
  have each: "\<And>s. s \<in> set sets \<Longrightarrow> \<exists>b. isVariantSet b s"
    using sets by (auto simp: list_all2_conv_all_nth in_set_conv_nth)
  have shape: "list_all (\<lambda>s. ntype (props s) = COMPONENT_SET \<and>
              map (\<lambda>c. (width (props c), height (props c))) (childNodes s) =
                [(16, 16), (24, 24), (32, 32)]) sets"
    unfolding list_all_iff
  proof
    fix s assume "s \<in> set sets"
    with each obtain b where "isVariantSet b s" by blast
    then show "ntype (props s) = COMPONENT_SET \<and>
              map (\<lambda>c. (width (props c), height (props c))) (childNodes s) =
                [(16, 16), (24, 24), (32, 32)]"
      using isVariantSet_ntype isVariantSet_children(1) by blast
  qed
  from out len sets shape show ?thesis by blast
qed

theorem createOutput_all_assembled_witness:
  "length [homeResult, starResult] \<ge> 1 \<and>
   list_all (\<lambda>r. error r = None) [homeResult, starResult] \<and>
   assembled calmHost 0 [homeResult, starResult] = length [homeResult, starResult] \<and>
   (\<exists>q sets. fst (createOutput calmHost 0 [homeResult, starResult]) = Some (Node q (Some sets)) \<and>
           length sets = length [homeResult, starResult] \<and>
           list_all2 (\<lambda>r s. isVariantSet (stripSizeSuffix (rname r)) s) [homeResult, starResult] sets \<and>
           list_all (\<lambda>s. ntype (props s) = COMPONENT_SET \<and>
              map (\<lambda>c. (width (props c), height (props c))) (childNodes s) =
                [(16, 16), (24, 24), (32, 32)]) sets)"
proof -
  have a: "length [homeResult, starResult] \<ge> 1" by simp
  have b: "list_all (\<lambda>r. error r = None) [homeResult, starResult]"
    by (simp add: homeResult_def starResult_def)
  have c: "assembled calmHost 0 [homeResult, starResult] = length [homeResult, starResult]"
    by code_simp
  note t = createOutput_all_assembled [OF a b c]
  show ?thesis by (rule conjI [OF a conjI [OF b conjI [OF c t]]])
qed

text \<open>
  C2, as stated, fails: two results that both succeeded, on a host whose markup import
  and font loading throw. Each assembly throws out of \<open>createComponentSet\<close>, the loop
  catches it, and the output frame is left without a single child.
\<close>

theorem all_succeeded_none_assembled:
  "list_all (\<lambda>r. error r = None) [homeResult, starResult] \<and>
   map_option childNodes (fst (createOutput brokenHost 0 [homeResult, starResult])) = Some []"
  by code_simp

lemma length_filter_ok:
  "length (filter (\<lambda>r. error r = None) results) =
     length results - length (filter (\<lambda>r. error r \<noteq> None) results)"
  using sum_length_filter_compl[of "\<lambda>r. error r = None" results] by simp

text \<open>
  C3, as the code has it. For every request of N icons of which exactly K
  (0 < K < N) fail normalization, and for which the assembly of each of the other
  N - K icons completes, the children of the output frame are exactly N - K variant
  sets, and the notification reports N - K icons created and K failed.
\<close>

theorem createOutput_partial_failure:
  assumes "N = length results"
    and "K = length (filter (\<lambda>r. error r \<noteq> None) results)"
    and "0 < K" and "K < N"
    and "assembled h n results = N - K"
  shows "\<exists>q sets. createOutput h n results =
           (Some (Node q (Some sets)),
            [Notify (''Created '' @ decimal (N - K) @ '' icon(s) as ComponentSets. '' @
                     decimal K @ '' failed.'') False,
             SetSelection [n], ScrollAndZoomIntoView [n]]) \<and>
           length sets = N - K \<and>
           list_all (\<lambda>s. ntype (props s) = COMPONENT_SET) sets"
proof -
  let ?ok = "filter (\<lambda>r. error r = None) results"
  have len: "length ?ok = N - K" using assms(1,2) by (simp add: length_filter_ok)
  with assms(4) have ne: "?ok \<noteq> []" by auto
  have all: "completions h ?ok (createOutputFrame h n) = length ?ok"
    using assms(5) len by (simp add: assembled_def)
  have below: "list_all (\<lambda>c. nid (props c) < nextId (createOutputFrame h n)) []" by simp
  from createAll_complete[OF createOutputFrame_fresh(1) below all] obtain sets where
    fr: "frame (createAll h ?ok (createOutputFrame h n)) =
          Node ((defaults h FRAME)\<lparr>nid := n, ntype := FRAME, name := ''Normalized Icons''\<rparr>)
            (Some ([] @ sets))"
    and sets: "list_all2 (\<lambda>r s. isVariantSet (stripSizeSuffix (rname r)) s) ?ok sets"
    by blast
  have msg: "reportMessage (N - K) K =
      ''Created '' @ decimal (N - K) @ '' icon(s) as ComponentSets. '' @ decimal K @ '' failed.''"
    using assms(3) by (simp add: reportMessage_def)
  have out: "createOutput h n results =
           (Some (Node ((defaults h FRAME)\<lparr>nid := n, ntype := FRAME, name := ''Normalized Icons''\<rparr>)
                   (Some sets)),
            [Notify (''Created '' @ decimal (N - K) @ '' icon(s) as ComponentSets. '' @
                     decimal K @ '' failed.'') False,
             SetSelection [n], ScrollAndZoomIntoView [n]])"
    using fr len assms(2) msg by (simp add: createOutput_report[OF ne])
  have n: "length sets = N - K"
    using sets len by (simp add: list_all2_lengthD[symmetric])
  have "\<And>s. s \<in> set sets \<Longrightarrow> \<exists>b. isVariantSet b s"
    using sets by (auto simp: list_all2_conv_all_nth in_set_conv_nth)
  then have ty: "list_all (\<lambda>s. ntype (props s) = COMPONENT_SET) sets"
    unfolding list_all_iff using isVariantSet_ntype by blast
  from out n ty show ?thesis by blast
qed

theorem createOutput_partial_failure_witness:
  "(3::nat) = length [homeResult, failedResult, starResult] \<and>
   (1::nat) = length (filter (\<lambda>r. error r \<noteq> None) [homeResult, failedResult, starResult]) \<and>
   assembled calmHost 0 [homeResult, failedResult, starResult] = 3 - 1 \<and>
   (\<exists>q sets. createOutput calmHost 0 [homeResult, failedResult, starResult] =
           (Some (Node q (Some sets)),
            [Notify (''Created '' @ decimal (3 - 1) @ '' icon(s) as ComponentSets. '' @
                     decimal 1 @ '' failed.'') False,
             SetSelection [0], ScrollAndZoomIntoView [0]]) \<and>
           length sets = 3 - 1 \<and>
           list_all (\<lambda>s. ntype (props s) = COMPONENT_SET) sets)"
proof -
  have a: "(3::nat) = length [homeResult, failedResult, starResult]" by simp
  have b: "(1::nat) = length (filter (\<lambda>r. error r \<noteq> None) [homeResult, failedResult, starResult])"
    by (simp add: homeResult_def failedResult_def starResult_def)
  have c: "(0::nat) < 1" by simp
  have d: "(1::nat) < 3" by simp
  have e: "assembled calmHost 0 [homeResult, failedResult, starResult] = 3 - 1" by code_simp
  note t = createOutput_partial_failure [OF a b c d e]
  show ?thesis by (rule conjI [OF a conjI [OF b conjI [OF e t]]])
qed

text \<open>
  C3, as stated, fails in its second half: of N = 3 results K = 1 failed, every
  assembly completes, and the notification reports 2 created and 1 failed: the
  failure count shown is K = 1, not N - K = 2.
\<close>

theorem reported_failure_count_is_K:
  "length [homeResult, starResult, failedResult] = 3 \<and>
   length (filter (\<lambda>r. error r \<noteq> None) [homeResult, starResult, failedResult]) = 1 \<and>
   snd (createOutput calmHost 0 [homeResult, starResult, failedResult]) =
     [Notify ''Created 2 icon(s) as ComponentSets. 1 failed.'' False,
      SetSelection [0], ScrollAndZoomIntoView [0]]"
  by code_simp

text \<open>
  C4. The claim asks that the reported success count be the number of icons whose
  variant set was really created. For one successful result on a host whose
  \<open>combineAsVariants\<close> throws, no assembly completes and the output frame holds no
  variant set (only the three size-nodes appended before the throw), yet the
  notification says that 1 icon was created as a component set: the counts are taken
  from the \<open>error\<close> fields before the loop and are never corrected.
\<close>

theorem created_count_ignores_assembly_failure:
  "assembled grumpyHost 0 [homeResult] = 0 \<and>
   map_option variantSets (fst (createOutput grumpyHost 0 [homeResult])) = Some [] \<and>
   map_option (\<lambda>out. map (\<lambda>c. name (props c)) (childNodes out))
     (fst (createOutput grumpyHost 0 [homeResult])) = Some [''home_16'', ''home_24'', ''home_32''] \<and>
   snd (createOutput grumpyHost 0 [homeResult]) =
     [Notify ''Created 1 icon(s) as ComponentSets'' False,
      SetSelection [0], ScrollAndZoomIntoView [0]]"
  by code_simp

text \<open>
  C10. For a display name that is a size suffix and nothing else, the base name is
  empty, the three size-nodes are named \<open>_16\<close>, \<open>_24\<close> and \<open>_32\<close>, and the variant
  set that \<open>createComponentSet\<close> adds to the frame when it returns is named by the
  empty string and has the size-nodes of those names as its children.
\<close>

theorem bare_suffix_names:
  assumes "rname r \<in> set sizeSuffixes"
    and "createComponentSet h r d = (None, d')"
    and "tidy d"
  shows "stripSizeSuffix (rname r) = [] \<and>
         map (sizeNodeName (stripSizeSuffix (rname r))) sizes = [''_16'', ''_24'', ''_32''] \<and>
         (\<exists>s. childNodes (frame d') = childNodes (frame d) @ [s] \<and>
              ntype (props s) = COMPONENT_SET \<and> name (props s) = [] \<and>
              map (\<lambda>c. name (props c)) (childNodes s) = [''_16'', ''_24'', ''_32''])"
proof -
  have base: "stripSizeSuffix (rname r) = []"
    using assms(1) by (rule stripSizeSuffix_whole)
  have names: "map (sizeNodeName (stripSizeSuffix (rname r))) sizes = [''_16'', ''_24'', ''_32'']"
    by (simp add: base sizeNodeNames)
  from assms(3) obtain p old where fr: "frame d = Node p (Some old)"
    and below: "list_all (\<lambda>c. nid (props c) < nextId d) old"
    by (rule tidyE)
  from createComponentSet_None[OF assms(2) fr below] obtain s where
    s: "frame d' = Node p (Some (old @ [s]))" "isVariantSet (stripSizeSuffix (rname r)) s"
    by blast
  have k1: "childNodes (frame d') = childNodes (frame d) @ [s]"
    using s(1) fr by (simp add: childNodes_def)
  have k2: "ntype (props s) = COMPONENT_SET" using s(2) by (rule isVariantSet_ntype)
  have k3: "name (props s) = []" using s(2) base by (simp add: isVariantSet_def)
  have k4: "map (\<lambda>c. name (props c)) (childNodes s) = [''_16'', ''_24'', ''_32'']"
    using isVariantSet_children(2)[OF s(2)] names by simp
  have ex: "\<exists>s. childNodes (frame d') = childNodes (frame d) @ [s] \<and>
              ntype (props s) = COMPONENT_SET \<and> name (props s) = [] \<and>
              map (\<lambda>c. name (props c)) (childNodes s) = [''_16'', ''_24'', ''_32'']"
    by (rule exI [of _ s], rule conjI [OF k1 conjI [OF k2 conjI [OF k3 k4]]])
  show ?thesis by (rule conjI [OF base conjI [OF names ex]])
qed

theorem bare_suffix_names_witness:
  "rname bareSuffixResult \<in> set sizeSuffixes \<and>
   tidy (createOutputFrame calmHost 0) \<and>
   fst (createComponentSet calmHost bareSuffixResult (createOutputFrame calmHost 0)) = None \<and>
   stripSizeSuffix (rname bareSuffixResult) = [] \<and>
   map (sizeNodeName (stripSizeSuffix (rname bareSuffixResult))) sizes = [''_16'', ''_24'', ''_32''] \<and>
   (\<exists>s. childNodes (frame (snd (createComponentSet calmHost bareSuffixResult
                                   (createOutputFrame calmHost 0)))) =
          childNodes (frame (createOutputFrame calmHost 0)) @ [s] \<and>
        ntype (props s) = COMPONENT_SET \<and> name (props s) = [] \<and>
        map (\<lambda>c. name (props c)) (childNodes s) = [''_16'', ''_24'', ''_32''])"
proof -
  let ?d = "createOutputFrame calmHost 0"
  let ?run = "createComponentSet calmHost bareSuffixResult ?d"
  have a: "rname bareSuffixResult \<in> set sizeSuffixes" by code_simp
  have t: "tidy ?d" by code_simp
  have f: "fst ?run = None" by code_simp
  then have b: "?run = (None, snd ?run)" by (simp add: prod_eq_iff)
  note w = bare_suffix_names [OF a b t]
  show ?thesis by (rule conjI [OF a conjI [OF t conjI [OF f w]]])
qed

end
